theory Spec2Isabelle
  imports Complex_Main
begin

section \<open>Ebisu: a Beta prior on recall probability (src/ebisu/ebisu.py)\<close>

text \<open>
  The source computes with Python floats. It is embedded twice. The first embedding reads
  every float as a real number and every operation as the exact one; it carries the
  mathematics of the formulas. The second takes the arithmetic as a parameter, so that what
  is proved of it for every arithmetic holds of the program whatever its floats do; its
  instance \<open>binary64\<close> rounds every result to a double and evaluates the program where
  rounding decides the outcome. What the source raises is a value of the type \<open>error\<close>:
  Python's float division raises on a zero divisor, \<^verbatim>\<open>assert\<close> raises on a false
  condition, and the library solvers raise on inputs they refuse.
\<close>

subsection \<open>Data model\<close>

type_synonym BetaModel = "real \<times> real \<times> real"

type_synonym GB1Model = "real \<times> real \<times> real \<times> real \<times> real"

datatype error = ZeroDivisionError | AssertionError | ValueError

definition valid_model :: "BetaModel \<Rightarrow> bool" where
  "valid_model m = (case m of (alpha, beta, t) \<Rightarrow> 0 < alpha \<and> 0 < beta \<and> 0 < t)"

text \<open>Python's \<^verbatim>\<open>x / y\<close> on floats: a zero divisor raises.\<close>

definition pydiv :: "real \<Rightarrow> real \<Rightarrow> error + real" where
  "pydiv x y = (if y = 0 then Inl ZeroDivisionError else Inr (x / y))"

subsection \<open>The numeric runtime: log-gamma, log-beta, signed log-sum-exp\<close>

text \<open>
  \<^verbatim>\<open>scipy.special.gammaln\<close> is the logarithm of the absolute value of the Gamma
  function. It is given here by Euler's product,
  \<open>\<Gamma> x = (1 / x) * (\<Prod>k\<ge>1. (1 + 1 / k) ^ x / (1 + x / k))\<close>, in logarithmic form. In HOL
  \<open>ln x\<close> is \<open>ln \<bar>x\<bar>\<close>, which is what makes the series the logarithm of the absolute
  value. At the poles \<open>0, -1, -2, ...\<close> scipy returns infinity and the series below does
  not; every theorem about \<open>gammaln\<close> in this file is about positive arguments.
\<close>

definition gammaln_term :: "real \<Rightarrow> nat \<Rightarrow> real" where
  "gammaln_term x k = x * ln (1 + 1 / real (Suc k)) - ln (1 + x / real (Suc k))"

definition gammaln :: "real \<Rightarrow> real" where
  "gammaln x = - ln x + (\<Sum>k. gammaln_term x k)"

definition betaln :: "real \<Rightarrow> real \<Rightarrow> real" where
  "betaln p q = gammaln p + gammaln q - gammaln (p + q)"

text \<open>\<^verbatim>\<open>scipy.special.logsumexp(a, b=b)\<close>: the logarithm of \<open>\<Sum>i. b\<^sub>i * exp a\<^sub>i\<close>.\<close>

definition logsumexp :: "real list \<Rightarrow> real list \<Rightarrow> real" where
  "logsumexp a b = ln (sum_list (map2 (\<lambda>x c. c * exp x) a b))"

text \<open>
  The two solvers of \<^verbatim>\<open>scipy.optimize\<close> are parameters of the functions that call
  them. \<^verbatim>\<open>least_squares(f, x0, bounds=(lower, upper))\<close> takes the residual function, the
  initial guess and the box (an upper bound \<open>None\<close> is \<^verbatim>\<open>np.inf\<close>) and gives the fitted
  point or raises; \<^verbatim>\<open>root_scalar(f, bracket=[lo, hi])\<close> gives the root or raises.
\<close>

type_synonym least_squares_solver =
  "(real \<times> real \<Rightarrow> real list) \<Rightarrow> real \<times> real \<Rightarrow>
     (real \<times> real) \<times> (real option \<times> real option) \<Rightarrow> error + real \<times> real"

type_synonym root_solver = "(real \<Rightarrow> real) \<Rightarrow> real \<times> real \<Rightarrow> error + real"

text \<open>
  Two stand-in solvers, used only to close statements at concrete inputs: one gives back its
  initial guess, the other the midpoint of its bracket.
\<close>

definition initial_guess_solver :: least_squares_solver where
  "initial_guess_solver f x0 bounds = Inr x0"

definition midpoint_solver :: root_solver where
  "midpoint_solver f bracket = (case bracket of (lo, hi) \<Rightarrow> Inr ((lo + hi) / 2))"

subsection \<open>Recall predictor\<close>

text \<open>
  \<^verbatim>\<open>if not independent\<close> is true for \<^verbatim>\<open>None\<close> and for \<^verbatim>\<open>0.0\<close>: both make the function
  compute the term itself. The argument is called \<open>indep\<close> here, since
  \<open>independent\<close> is linear independence in HOL.
\<close>

definition predictRecall :: "BetaModel \<Rightarrow> real \<Rightarrow> bool \<Rightarrow> real option \<Rightarrow> error + real" where
  "predictRecall prior tnow exact indep =
     (case prior of (alpha, beta, t) \<Rightarrow>
        let indep' =
              (case indep of
                 None \<Rightarrow> gammaln (alpha + beta) - gammaln alpha
               | Some v \<Rightarrow> if v = 0 then gammaln (alpha + beta) - gammaln alpha else v)
        in case pydiv tnow t of
             Inl e \<Rightarrow> Inl e
           | Inr dt \<Rightarrow>
               let ret = gammaln (alpha + dt) - gammaln (alpha + beta + dt) + indep'
               in Inr (if exact then exp ret else ret))"

definition cacheIndependent :: "BetaModel \<Rightarrow> real" where
  "cacheIndependent prior =
     (case prior of (alpha, beta, t) \<Rightarrow> gammaln (alpha + beta) - gammaln alpha)"

subsection \<open>Moment engine\<close>

definition failureMoments :: "BetaModel \<Rightarrow> real \<Rightarrow> nat \<Rightarrow> bool \<Rightarrow> error + real list" where
  "failureMoments model tnow num returnLog =
     (case model of (a, b, t0) \<Rightarrow>
        case pydiv tnow t0 of
          Inl e \<Rightarrow> Inl e
        | Inr t \<Rightarrow>
            let s = map (\<lambda>n. gammaln (a + real n * t) - gammaln (a + b + real n * t))
                      [0..<num + 2];
                marginal = logsumexp [s ! 0, s ! 1] [1, - 1];
                ret = map (\<lambda>n. logsumexp [s ! n, s ! (n + 1)] [1, - 1] - marginal)
                        [1..<num + 1]
            in Inr (if returnLog then ret else map exp ret))"

text \<open>
  In \<^verbatim>\<open>gb1Moments\<close> the division \<^verbatim>\<open>h / a\<close> is a numpy division, which does not raise.
\<close>

definition gb1Moments :: "real \<Rightarrow> real \<Rightarrow> real \<Rightarrow> real \<Rightarrow> nat \<Rightarrow> bool \<Rightarrow> real list" where
  "gb1Moments a b p q num returnLog =
     (let bpq = betaln p q;
          logb = ln b;
          ret = map (\<lambda>h. real h * logb + betaln (p + real h / a) q - bpq) [1..<num + 1]
      in if returnLog then ret else map exp ret)"

subsection \<open>Posterior updater\<close>

definition gb1ToBeta :: "GB1Model \<Rightarrow> BetaModel" where
  "gb1ToBeta gb1 = (case gb1 of (g0, g1, g2, g3, g4) \<Rightarrow> (g2, g3, g4 * g0))"

text \<open>
  The two divisions at the head of \<^verbatim>\<open>updateRecall\<close> are divisions of Python floats and
  raise on zero. In the failure branch \<^verbatim>\<open>1 / d\<close> and \<^verbatim>\<open>1 / newDelta\<close> divide by numpy
  scalars, which do not raise.
\<close>

definition updateRecall ::
  "least_squares_solver \<Rightarrow> BetaModel \<Rightarrow> bool \<Rightarrow> real \<Rightarrow> error + BetaModel" where
  "updateRecall least_squares prior result tnow =
     (case prior of (alpha, beta, t) \<Rightarrow>
        case pydiv tnow t of
          Inl e \<Rightarrow> Inl e
        | Inr dt \<Rightarrow>
            if result then
              (case pydiv 1 dt of
                 Inl e \<Rightarrow> Inl e
               | Inr a \<Rightarrow> Inr (gb1ToBeta (a, 1, alpha + dt, beta, tnow)))
            else
              (case failureMoments prior tnow 2 True of
                 Inl e \<Rightarrow> Inl e
               | Inr mom \<Rightarrow>
                   let f = (\<lambda>bd. case bd of (b, d) \<Rightarrow>
                              map2 (-) (gb1Moments (1 / d) 1 alpha b 2 True) mom)
                   in case least_squares f (beta, dt) ((101 / 100, 0), (None, None)) of
                        Inl e \<Rightarrow> Inl e
                      | Inr (newBeta, newDelta) \<Rightarrow>
                          Inr (gb1ToBeta (1 / newDelta, 1, alpha, newBeta, tnow))))"

subsection \<open>Percentile inverter\<close>

text \<open>
  The two \<^verbatim>\<open>while\<close> loops of the bracket scan. Nothing in the source bounds them, so each
  is a partial function: \<open>None\<close> is a scan that never stops.
\<close>

partial_function (option) scan_up ::
  "(real \<Rightarrow> real) \<Rightarrow> real \<Rightarrow> real \<Rightarrow> real \<Rightarrow> real \<Rightarrow> real \<Rightarrow> (real \<times> real \<times> real \<times> real) option"
where
  "scan_up f bracket_width blow flow bhigh fhigh =
     (if flow > 0 \<and> fhigh > 0
      then scan_up f bracket_width bhigh fhigh (bhigh + bracket_width) (f (bhigh + bracket_width))
      else Some (blow, flow, bhigh, fhigh))"

partial_function (option) scan_down ::
  "(real \<Rightarrow> real) \<Rightarrow> real \<Rightarrow> real \<Rightarrow> real \<Rightarrow> real \<Rightarrow> real \<Rightarrow> (real \<times> real \<times> real \<times> real) option"
where
  "scan_down f bracket_width blow flow bhigh fhigh =
     (if flow < 0 \<and> fhigh < 0
      then scan_down f bracket_width (blow - bracket_width) (f (blow - bracket_width)) blow flow
      else Some (blow, flow, bhigh, fhigh))"

text \<open>
  The function \<^verbatim>\<open>f\<close> that \<^verbatim>\<open>modelToPercentileDecay\<close> defines locally. For a percentile
  that is not positive numpy's logarithm is infinite or NaN, which the model has no value for;
  the theorems about the inverter are about percentiles in \<open>(0, 1)\<close>.
\<close>

definition decay_f :: "real \<Rightarrow> real \<Rightarrow> real \<Rightarrow> real \<Rightarrow> real" where
  "decay_f alpha beta percentile lndelta =
     (let logBab = betaln alpha beta;
          logPercentile = ln percentile;
          logMean = betaln (alpha + exp lndelta) beta - logBab
      in logMean - logPercentile)"

definition modelToPercentileDecay :: "root_solver \<Rightarrow> BetaModel \<Rightarrow> real \<Rightarrow> (error + real) option" where
  "modelToPercentileDecay root_scalar model percentile =
     (case model of (alpha, beta, t0) \<Rightarrow>
        let f = decay_f alpha beta percentile;
            bracket_width = 6;
            blow = - bracket_width / 2;
            bhigh = bracket_width / 2;
            flow = f blow;
            fhigh = f bhigh
        in case scan_up f bracket_width blow flow bhigh fhigh of
             None \<Rightarrow> None
           | Some (blow, flow, bhigh, fhigh) \<Rightarrow>
               (case scan_down f bracket_width blow flow bhigh fhigh of
                  None \<Rightarrow> None
                | Some (blow, flow, bhigh, fhigh) \<Rightarrow>
                    if \<not> (flow > 0 \<and> fhigh < 0) then Some (Inl AssertionError)
                    else
                      (case root_scalar f (blow, bhigh) of
                         Inl e \<Rightarrow> Some (Inl e)
                       | Inr sol_root \<Rightarrow> Some (Inr (exp sol_root * t0)))))"

subsection \<open>Model constructor\<close>

text \<open>
  \<^verbatim>\<open>beta or alpha\<close> is \<^verbatim>\<open>alpha\<close> when \<^verbatim>\<open>beta\<close> is \<^verbatim>\<open>None\<close> and also when it is zero. The
  default \<^verbatim>\<open>alpha=3.0\<close> is what a caller that omits \<^verbatim>\<open>alpha\<close> passes.
\<close>

definition defaultModel :: "real \<Rightarrow> real \<Rightarrow> real option \<Rightarrow> BetaModel" where
  "defaultModel t alpha beta =
     (alpha, (case beta of None \<Rightarrow> alpha | Some b \<Rightarrow> if b = 0 then alpha else b), t)"

subsection \<open>The arithmetic as a parameter\<close>

text \<open>
  An arithmetic gives the operations the source uses on floats: the conversion of a literal
  or an integer, the four operations, the library functions, and the truth value of
  \<^verbatim>\<open>not x\<close>. \<open>fdiv_py\<close> is the division of Python floats, which may raise, and
  \<open>fdiv_np\<close> the division of numpy scalars, which does not.
\<close>

record 'v arith =
  flit :: "real \<Rightarrow> 'v"
  fadd :: "'v \<Rightarrow> 'v \<Rightarrow> 'v"
  fsub :: "'v \<Rightarrow> 'v \<Rightarrow> 'v"
  fmul :: "'v \<Rightarrow> 'v \<Rightarrow> 'v"
  fdiv_py :: "'v \<Rightarrow> 'v \<Rightarrow> error + 'v"
  fdiv_np :: "'v \<Rightarrow> 'v \<Rightarrow> 'v"
  fexp :: "'v \<Rightarrow> 'v"
  flog :: "'v \<Rightarrow> 'v"
  fgammaln :: "'v \<Rightarrow> 'v"
  fbetaln :: "'v \<Rightarrow> 'v \<Rightarrow> 'v"
  flogsumexp :: "'v list \<Rightarrow> 'v list \<Rightarrow> 'v"
  fnot :: "'v \<Rightarrow> bool"

type_synonym 'v least_squares_in =
  "('v \<times> 'v \<Rightarrow> 'v list) \<Rightarrow> 'v \<times> 'v \<Rightarrow>
     ('v \<times> 'v) \<times> ('v option \<times> 'v option) \<Rightarrow> error + 'v \<times> 'v"

text \<open>
  \<^verbatim>\<open>predictRecall\<close>, \<^verbatim>\<open>failureMoments\<close>, \<^verbatim>\<open>gb1Moments\<close>, \<^verbatim>\<open>gb1ToBeta\<close> and
  \<^verbatim>\<open>updateRecall\<close> once more, operation by operation, in a given arithmetic.
\<close>

definition predictRecall_in ::
  "'v arith \<Rightarrow> 'v \<times> 'v \<times> 'v \<Rightarrow> 'v \<Rightarrow> bool \<Rightarrow> 'v option \<Rightarrow> error + 'v" where
  "predictRecall_in ar prior tnow exact indep =
     (case prior of (alpha, beta, t) \<Rightarrow>
        let indep' =
              (case indep of
                 None \<Rightarrow> fsub ar (fgammaln ar (fadd ar alpha beta)) (fgammaln ar alpha)
               | Some v \<Rightarrow>
                   if fnot ar v
                   then fsub ar (fgammaln ar (fadd ar alpha beta)) (fgammaln ar alpha)
                   else v)
        in case fdiv_py ar tnow t of
             Inl e \<Rightarrow> Inl e
           | Inr dt \<Rightarrow>
               let ret = fadd ar
                           (fsub ar (fgammaln ar (fadd ar alpha dt))
                                    (fgammaln ar (fadd ar (fadd ar alpha beta) dt)))
                           indep'
               in Inr (if exact then fexp ar ret else ret))"

definition failureMoments_in ::
  "'v arith \<Rightarrow> 'v \<times> 'v \<times> 'v \<Rightarrow> 'v \<Rightarrow> nat \<Rightarrow> bool \<Rightarrow> error + 'v list" where
  "failureMoments_in ar model tnow num returnLog =
     (case model of (a, b, t0) \<Rightarrow>
        case fdiv_py ar tnow t0 of
          Inl e \<Rightarrow> Inl e
        | Inr t \<Rightarrow>
            let s = map (\<lambda>n. fsub ar
                               (fgammaln ar (fadd ar a (fmul ar (flit ar (real n)) t)))
                               (fgammaln ar (fadd ar (fadd ar a b) (fmul ar (flit ar (real n)) t))))
                      [0..<num + 2];
                marginal = flogsumexp ar [s ! 0, s ! 1] [flit ar 1, flit ar (- 1)];
                ret = map (\<lambda>n. fsub ar
                                 (flogsumexp ar [s ! n, s ! (n + 1)] [flit ar 1, flit ar (- 1)])
                                 marginal)
                        [1..<num + 1]
            in Inr (if returnLog then ret else map (fexp ar) ret))"

definition gb1Moments_in ::
  "'v arith \<Rightarrow> 'v \<Rightarrow> 'v \<Rightarrow> 'v \<Rightarrow> 'v \<Rightarrow> nat \<Rightarrow> bool \<Rightarrow> 'v list" where
  "gb1Moments_in ar a b p q num returnLog =
     (let bpq = fbetaln ar p q;
          logb = flog ar b;
          ret = map (\<lambda>h. fsub ar
                           (fadd ar (fmul ar (flit ar (real h)) logb)
                                    (fbetaln ar (fadd ar p (fdiv_np ar (flit ar (real h)) a)) q))
                           bpq)
                  [1..<num + 1]
      in if returnLog then ret else map (fexp ar) ret)"

definition gb1ToBeta_in :: "'v arith \<Rightarrow> 'v \<times> 'v \<times> 'v \<times> 'v \<times> 'v \<Rightarrow> 'v \<times> 'v \<times> 'v" where
  "gb1ToBeta_in ar gb1 = (case gb1 of (g0, g1, g2, g3, g4) \<Rightarrow> (g2, g3, fmul ar g4 g0))"

definition updateRecall_in ::
  "'v arith \<Rightarrow> 'v least_squares_in \<Rightarrow> 'v \<times> 'v \<times> 'v \<Rightarrow> bool \<Rightarrow> 'v \<Rightarrow> error + 'v \<times> 'v \<times> 'v" where
  "updateRecall_in ar least_squares prior result tnow =
     (case prior of (alpha, beta, t) \<Rightarrow>
        case fdiv_py ar tnow t of
          Inl e \<Rightarrow> Inl e
        | Inr dt \<Rightarrow>
            if result then
              (case fdiv_py ar (flit ar 1) dt of
                 Inl e \<Rightarrow> Inl e
               | Inr a \<Rightarrow> Inr (gb1ToBeta_in ar (a, flit ar 1, fadd ar alpha dt, beta, tnow)))
            else
              (case failureMoments_in ar prior tnow 2 True of
                 Inl e \<Rightarrow> Inl e
               | Inr mom \<Rightarrow>
                   let f = (\<lambda>bd. case bd of (b, d) \<Rightarrow>
                              map2 (fsub ar)
                                (gb1Moments_in ar (fdiv_np ar (flit ar 1) d) (flit ar 1) alpha b 2 True)
                                mom)
                   in case least_squares f (beta, dt)
                             ((flit ar (101 / 100), flit ar 0), (None, None)) of
                        Inl e \<Rightarrow> Inl e
                      | Inr (newBeta, newDelta) \<Rightarrow>
                          Inr (gb1ToBeta_in ar
                                 (fdiv_np ar (flit ar 1) newDelta, flit ar 1, alpha, newBeta, tnow))))"

text \<open>
  Rounding to the nearest double, ties to even: a significand of 53 bits, so the unit in the
  last place of \<open>x\<close> is \<open>2\<close> to the power \<open>\<lfloor>log 2 \<bar>x\<bar>\<rfloor> - 52\<close>. The exponent is unbounded:
  this is IEEE binary64 where nothing overflows or underflows.
\<close>

definition round_half_even :: "real \<Rightarrow> int" where
  "round_half_even y =
     (let f = \<lfloor>y\<rfloor>
      in if y - of_int f < 1 / 2 then f
         else if 1 / 2 < y - of_int f then f + 1
         else if even f then f else f + 1)"

definition binary64_round :: "real \<Rightarrow> real" where
  "binary64_round x =
     (if x = 0 then 0
      else let e = \<lfloor>log 2 \<bar>x\<bar>\<rfloor>;
               u = 2 powr (of_int e - 52)
           in of_int (round_half_even (x / u)) * u)"

text \<open>
  Two arithmetics on the reals: the exact one, and the one that rounds every result to a
  double. In the second the library functions are the mathematical ones, correctly rounded.
\<close>

definition exact_arith :: "real arith" where
  "exact_arith =
     \<lparr>flit = (\<lambda>x. x), fadd = (+), fsub = (-), fmul = (*),
      fdiv_py = pydiv, fdiv_np = (/),
      fexp = exp, flog = ln, fgammaln = gammaln, fbetaln = betaln,
      flogsumexp = logsumexp, fnot = (\<lambda>x. x = 0)\<rparr>"

definition binary64 :: "real arith" where
  "binary64 =
     \<lparr>flit = binary64_round,
      fadd = (\<lambda>x y. binary64_round (x + y)),
      fsub = (\<lambda>x y. binary64_round (x - y)),
      fmul = (\<lambda>x y. binary64_round (x * y)),
      fdiv_py = (\<lambda>x y. if y = 0 then Inl ZeroDivisionError else Inr (binary64_round (x / y))),
      fdiv_np = (\<lambda>x y. binary64_round (x / y)),
      fexp = (\<lambda>x. binary64_round (exp x)),
      flog = (\<lambda>x. binary64_round (ln x)),
      fgammaln = (\<lambda>x. binary64_round (gammaln x)),
      fbetaln = (\<lambda>p q. binary64_round (betaln p q)),
      flogsumexp = (\<lambda>a b. binary64_round (logsumexp a b)),
      fnot = (\<lambda>x. x = 0)\<rparr>"

section \<open>The log-gamma function\<close>

subsection \<open>Convergence of the series\<close>

lemma summable_inverse_Suc_squared: "summable (\<lambda>k. 1 / (real (Suc k))\<^sup>2)"
proof -
  have lim: "(\<lambda>n. 1 / real (Suc n)) \<longlonglongrightarrow> 0"
    using LIMSEQ_inverse_real_of_nat by (simp add: inverse_eq_divide)
  have tele: "summable (\<lambda>n. 1 / real (Suc n) - 1 / real (Suc (Suc n)))"
    using telescope_summable' [OF lim] by simp
  have "summable (\<lambda>k. 1 / (real (Suc (Suc k)))\<^sup>2)"
  proof (rule summable_comparison_test' [OF tele, of 0])
    fix n :: nat
    have "1 / (real (Suc (Suc n)))\<^sup>2 \<le> 1 / (real (Suc n) * real (Suc (Suc n)))"
      by (intro divide_left_mono) (simp_all add: power2_eq_square)
    also have "\<dots> = 1 / real (Suc n) - 1 / real (Suc (Suc n))"
      by (simp add: field_simps)
    finally show "norm (1 / (real (Suc (Suc n)))\<^sup>2) \<le> 1 / real (Suc n) - 1 / real (Suc (Suc n))"
      by simp
  qed
  then show ?thesis
    by (subst (asm) summable_Suc_iff)
qed

lemma ln_one_plus_lower:
  fixes v :: real
  assumes "0 \<le> v"
  shows "v - v\<^sup>2 \<le> ln (1 + v)"
proof (cases "v \<le> 1")
  case True
  with assms show ?thesis by (intro ln_one_plus_pos_lower_bound)
next
  case False
  then have "v * 1 \<le> v * v" by (intro mult_left_mono) simp_all
  then have "v \<le> v\<^sup>2" by (simp add: power2_eq_square)
  moreover have "0 \<le> ln (1 + v)" using assms by simp
  ultimately show ?thesis by linarith
qed

lemma gammaln_term_bound:
  assumes "0 \<le> x"
  shows "\<bar>gammaln_term x k\<bar> \<le> (x\<^sup>2 + x) * (1 / (real (Suc k))\<^sup>2)"
proof -
  define u where "u = 1 / real (Suc k)"
  have u: "0 \<le> u" "u \<le> 1" by (simp_all add: u_def)
  have xu: "0 \<le> x * u" using assms u by simp
  have t: "gammaln_term x k = x * ln (1 + u) - ln (1 + x * u)"
    by (simp add: gammaln_term_def u_def)
  have 1: "ln (1 + u) \<le> u" using u by (intro ln_add_one_self_le_self)
  have 2: "u - u\<^sup>2 \<le> ln (1 + u)" using u by (intro ln_one_plus_lower)
  have 3: "ln (1 + x * u) \<le> x * u" using xu by (intro ln_add_one_self_le_self)
  have 4: "x * u - (x * u)\<^sup>2 \<le> ln (1 + x * u)" using xu by (intro ln_one_plus_lower)
  have up: "x * ln (1 + u) \<le> x * u" using 1 assms by (intro mult_left_mono)
  have lo: "x * (u - u\<^sup>2) \<le> x * ln (1 + u)" using 2 assms by (intro mult_left_mono)
  have a: "gammaln_term x k \<le> x\<^sup>2 * u\<^sup>2"
    using up 4 by (simp add: t power_mult_distrib)
  have b: "- (x * u\<^sup>2) \<le> gammaln_term x k"
    using lo 3 by (simp add: t algebra_simps)
  have c: "0 \<le> x\<^sup>2 * u\<^sup>2" "0 \<le> x * u\<^sup>2" using assms by simp_all
  have "\<bar>gammaln_term x k\<bar> \<le> x\<^sup>2 * u\<^sup>2 + x * u\<^sup>2"
    using a b c by linarith
  also have "\<dots> = (x\<^sup>2 + x) * (1 / (real (Suc k))\<^sup>2)"
    by (simp add: u_def power_divide add_divide_distrib)
  finally show ?thesis .
qed

lemma summable_gammaln_term: "0 \<le> x \<Longrightarrow> summable (gammaln_term x)"
proof (rule summable_comparison_test' [of "\<lambda>k. (x\<^sup>2 + x) * (1 / (real (Suc k))\<^sup>2)" 0])
  show "summable (\<lambda>k. (x\<^sup>2 + x) * (1 / (real (Suc k))\<^sup>2))"
    by (intro summable_mult summable_inverse_Suc_squared)
next
  fix n assume "0 \<le> x"
  then show "norm (gammaln_term x n) \<le> (x\<^sup>2 + x) * (1 / (real (Suc n))\<^sup>2)"
    using gammaln_term_bound [of x n] by simp
qed

subsection \<open>The functional equation\<close>

lemma gammaln_one: "gammaln 1 = 0"
  by (simp add: gammaln_def gammaln_term_def)

lemma gammaln_plus_one:
  assumes "0 < x"
  shows "gammaln (x + 1) = gammaln x + ln x"
proof -
  define g where "g n = ln (1 + x / real (Suc n))" for n
  have "(\<lambda>n. x / real (Suc n)) \<longlonglongrightarrow> 0"
    using tendsto_mult_right_zero [OF LIMSEQ_inverse_real_of_nat, of x]
    by (simp add: divide_inverse)
  then have "(\<lambda>n. 1 + x / real (Suc n)) \<longlonglongrightarrow> 1 + 0"
    by (intro tendsto_add tendsto_const)
  then have "g \<longlonglongrightarrow> ln 1"
    unfolding g_def by (intro tendsto_ln) simp_all
  then have lim: "(\<lambda>n. g n) \<longlonglongrightarrow> 0" by simp
  have tele: "(\<lambda>n. g n - g (Suc n)) sums (g 0 - 0)"
    by (rule telescope_sums' [OF lim])
  have step: "gammaln_term (x + 1) k - gammaln_term x k = g k - g (Suc k)" for k
  proof -
    have p: "0 < real (Suc k)" "0 < real (Suc (Suc k))" by simp_all
    have a: "1 + 1 / real (Suc k) = real (Suc (Suc k)) / real (Suc k)"
      by (simp add: field_simps)
    have b: "1 + (x + 1) / real (Suc k) = (real (Suc (Suc k)) + x) / real (Suc k)"
      by (simp add: field_simps)
    have c: "1 + x / real (Suc k) = (real (Suc k) + x) / real (Suc k)"
      by (simp add: field_simps)
    have d: "1 + x / real (Suc (Suc k)) = (real (Suc (Suc k)) + x) / real (Suc (Suc k))"
      by (simp add: field_simps)
    have q: "0 < real (Suc k) + x" "0 < real (Suc (Suc k)) + x"
      using assms by (simp_all add: add_pos_pos)
    show ?thesis
      unfolding gammaln_term_def g_def a b c d
      using p q by (simp only: ln_div) (simp add: algebra_simps)
  qed
  have "(\<lambda>k. gammaln_term (x + 1) k - gammaln_term x k) sums (g 0)"
    using tele by (simp add: step)
  then have "(\<Sum>k. gammaln_term (x + 1) k - gammaln_term x k) = g 0"
    by (simp add: sums_iff)
  moreover have "summable (gammaln_term (x + 1))" "summable (gammaln_term x)"
    using assms by (simp_all add: summable_gammaln_term)
  ultimately have "suminf (gammaln_term (x + 1)) - suminf (gammaln_term x) = ln (1 + x)"
    by (simp add: suminf_diff g_def)
  then show ?thesis
    by (simp add: gammaln_def add.commute)
qed

lemma gammaln_two: "gammaln 2 = 0"
  using gammaln_plus_one [of 1] by (simp add: gammaln_one)

text \<open>On the positive integers the series is the logarithm of the factorial.\<close>

lemma gammaln_fact: "gammaln (1 + real n) = ln (fact n)"
proof (induction n)
  case 0
  show ?case by (simp add: gammaln_one)
next
  case (Suc n)
  have "gammaln ((1 + real n) + 1) = gammaln (1 + real n) + ln (1 + real n)"
    by (intro gammaln_plus_one) simp
  moreover have "1 + real (Suc n) = (1 + real n) + 1"
    by simp
  moreover have "ln (fact (Suc n) :: real) = ln (fact n) + ln (1 + real n)"
    by (simp add: ln_mult add.commute)
  ultimately show ?case
    using Suc.IH by (simp only:)
qed

subsection \<open>Increments of log-gamma grow with the argument\<close>

text \<open>
  For a fixed step \<open>h \<ge> 0\<close> the increment \<open>gammaln (x + h) - gammaln x\<close> is monotone in
  \<open>x\<close>. This is the part of the logarithmic convexity of Gamma that the recall predictor
  rests on.
\<close>

lemma ln_increment_antimono:
  fixes a b h :: real
  assumes "0 < a" "a \<le> b" "0 \<le> h"
  shows "ln (b + h) - ln b \<le> ln (a + h) - ln a"
proof -
  have "ln ((b + h) / b) \<le> ln ((a + h) / a)"
  proof (subst ln_le_cancel_iff)
    show "0 < (b + h) / b" "0 < (a + h) / a" using assms by (simp_all add: add_pos_nonneg)
    have "h / b \<le> h / a" using assms by (intro divide_left_mono) simp_all
    then show "(b + h) / b \<le> (a + h) / a" using assms by (simp add: add_divide_distrib)
  qed
  then show ?thesis using assms by (simp add: ln_div add_pos_nonneg)
qed

lemma gammaln_term_increment_antimono:
  assumes "0 < x" "x \<le> y" "0 \<le> h"
  shows "gammaln_term y k - gammaln_term (y + h) k \<le> gammaln_term x k - gammaln_term (x + h) k"
proof -
  define n where "n = real (Suc k)"
  define c where "c = ln (1 + 1 / n)"
  have n: "0 < n" by (simp add: n_def)
  have key: "ln ((1 + y / n) + h / n) - ln (1 + y / n) \<le> ln ((1 + x / n) + h / n) - ln (1 + x / n)"
    using assms n by (intro ln_increment_antimono) (simp_all add: add_pos_pos divide_right_mono)
  have t: "gammaln_term z k = z * c - ln (1 + z / n)" for z
    by (simp add: gammaln_term_def n_def c_def)
  have e: "1 + (z + h) / n = (1 + z / n) + h / n" for z
    by (simp add: add_divide_distrib)
  have d: "(z + h) * c = z * c + h * c" for z
    by (simp add: distrib_right)
  show ?thesis
    unfolding t e d using key by linarith
qed

lemma gammaln_increment_antimono:
  assumes "0 < x" "x \<le> y" "0 \<le> h"
  shows "gammaln y - gammaln (y + h) \<le> gammaln x - gammaln (x + h)"
proof -
  have sx: "summable (gammaln_term x)" "summable (gammaln_term (x + h))"
    and sy: "summable (gammaln_term y)" "summable (gammaln_term (y + h))"
    using assms by (simp_all add: summable_gammaln_term)
  have "(\<Sum>k. gammaln_term y k - gammaln_term (y + h) k)
          \<le> (\<Sum>k. gammaln_term x k - gammaln_term (x + h) k)"
    using assms sx sy by (intro suminf_le summable_diff gammaln_term_increment_antimono)
  then have "suminf (gammaln_term y) - suminf (gammaln_term (y + h))
          \<le> suminf (gammaln_term x) - suminf (gammaln_term (x + h))"
    using sx sy by (simp add: suminf_diff)
  moreover have "ln (y + h) - ln y \<le> ln (x + h) - ln x"
    using assms by (rule ln_increment_antimono)
  ultimately show ?thesis by (simp add: gammaln_def)
qed

subsection \<open>How fast the increments grow\<close>

text \<open>
  Over whole steps the functional equation turns a difference of increments into a finite sum
  of logarithms. The sum is bounded below by a multiple of \<open>ln (x + n) - ln x\<close>, which is
  unbounded in \<open>n\<close>, and above by a multiple of the step.
\<close>

lemma gammaln_drop_shift:
  assumes "0 < x" and "0 \<le> h"
  shows "gammaln (x + real n) - gammaln (x + real n + h) =
           gammaln x - gammaln (x + h) - (\<Sum>j<n. ln (x + real j + h) - ln (x + real j))"
proof (induction n)
  case 0
  show ?case by simp
next
  case (Suc n)
  have p: "0 < x + real n" "0 < x + real n + h"
    using assms by (simp_all add: add_pos_nonneg)
  have a: "gammaln (x + real n + 1) = gammaln (x + real n) + ln (x + real n)"
    using p(1) by (rule gammaln_plus_one)
  have b: "gammaln (x + real n + h + 1) = gammaln (x + real n + h) + ln (x + real n + h)"
    using p(2) by (rule gammaln_plus_one)
  have c: "x + real (Suc n) = x + real n + 1" "x + real (Suc n) + h = x + real n + h + 1"
    by simp_all
  have e1: "gammaln (x + real (Suc n)) = gammaln (x + real n) + ln (x + real n)"
    by (simp only: c a)
  have e2: "gammaln (x + real (Suc n) + h) = gammaln (x + real n + h) + ln (x + real n + h)"
    by (simp only: c(2) b)
  have e3: "(\<Sum>j<Suc n. ln (x + real j + h) - ln (x + real j))
      = (\<Sum>j<n. ln (x + real j + h) - ln (x + real j)) + (ln (x + real n + h) - ln (x + real n))"
    by simp
  show ?case
    unfolding e1 e2 e3 using Suc.IH by linarith
qed

lemma ln_increment_repeat:
  fixes z h :: real
  assumes "0 < z" and "0 \<le> h"
  shows "ln (z + real K * h) - ln z \<le> real K * (ln (z + h) - ln z)"
proof (induction K)
  case 0
  show ?case by simp
next
  case (Suc K)
  have "0 \<le> real K * h" using assms by simp
  then have step: "ln ((z + real K * h) + h) - ln (z + real K * h) \<le> ln (z + h) - ln z"
    using assms by (intro ln_increment_antimono) simp_all
  have e1: "z + real (Suc K) * h = (z + real K * h) + h"
    by (simp add: distrib_right)
  have e2: "real (Suc K) * (ln (z + h) - ln z)
              = real K * (ln (z + h) - ln z) + (ln (z + h) - ln z)"
    by (simp add: distrib_right)
  show ?case
    unfolding e1 e2 using step Suc.IH by linarith
qed

lemma ln_unit_increment_le:
  fixes z h :: real
  assumes "0 < z" and "0 \<le> h" and "1 \<le> real K * h"
  shows "ln (z + 1) - ln z \<le> real K * (ln (z + h) - ln z)"
proof -
  have "ln (z + 1) \<le> ln (z + real K * h)"
    using assms by (subst ln_le_cancel_iff) simp_all
  with ln_increment_repeat [OF assms(1,2), of K] show ?thesis by linarith
qed

lemma gammaln_drop_upper:
  assumes "0 < x" and "0 \<le> h" and "1 \<le> real K * h"
  shows "real K * ((gammaln (x + real n) - gammaln (x + real n + h)) - (gammaln x - gammaln (x + h)))
           \<le> - (ln (x + real n) - ln x)"
proof -
  have "(\<Sum>j<n. ln (x + real (Suc j)) - ln (x + real j)) = ln (x + real n) - ln (x + real 0)"
    by (rule sum_lessThan_telescope)
  then have tele: "(\<Sum>j<n. ln (x + real j + 1) - ln (x + real j)) = ln (x + real n) - ln x"
    by (simp add: ac_simps)
  have "(\<Sum>j<n. ln (x + real j + 1) - ln (x + real j))
          \<le> (\<Sum>j<n. real K * (ln (x + real j + h) - ln (x + real j)))"
    using assms by (intro sum_mono ln_unit_increment_le) (simp_all add: add_pos_nonneg)
  also have "\<dots> = real K * (\<Sum>j<n. ln (x + real j + h) - ln (x + real j))"
    by (simp add: sum_distrib_left)
  finally have "ln (x + real n) - ln x \<le> real K * (\<Sum>j<n. ln (x + real j + h) - ln (x + real j))"
    by (simp add: tele)
  moreover have "(gammaln (x + real n) - gammaln (x + real n + h)) - (gammaln x - gammaln (x + h))
      = - (\<Sum>j<n. ln (x + real j + h) - ln (x + real j))"
    using gammaln_drop_shift [OF assms(1,2), of n] by linarith
  ultimately show ?thesis by simp
qed

lemma gammaln_drop_lower:
  assumes "0 < x" and "0 \<le> d" and "0 \<le> h" and "h \<le> real M"
  shows "(gammaln x - gammaln (x + h)) - (gammaln (x + d) - gammaln (x + d + h)) \<le> real M * (d / x)"
proof -
  have tm: "ln (x + real j + d) - ln (x + real j) \<le> d / x" for j
  proof -
    have a: "ln ((x + real j) + d) - ln (x + real j) \<le> ln (x + d) - ln x"
      using assms by (intro ln_increment_antimono) simp_all
    have "ln ((x + d) / x) = ln (x + d) - ln x"
      using assms by (simp add: ln_div add_pos_nonneg)
    moreover have "(x + d) / x = 1 + d / x"
      using assms by (simp add: add_divide_distrib)
    ultimately have b: "ln (x + d) - ln x = ln (1 + d / x)"
      by simp
    have c: "ln (1 + d / x) \<le> d / x"
      using assms by (intro ln_add_one_self_le_self) simp
    show ?thesis using a b c by linarith
  qed
  have "(\<Sum>j<M. ln (x + real j + d) - ln (x + real j)) \<le> (\<Sum>j<M. d / x)"
    by (intro sum_mono tm)
  then have sum: "(\<Sum>j<M. ln (x + real j + d) - ln (x + real j)) \<le> real M * (d / x)"
    by simp
  have shift: "gammaln (x + real M) - gammaln (x + real M + d) =
      gammaln x - gammaln (x + d) - (\<Sum>j<M. ln (x + real j + d) - ln (x + real j))"
    using assms by (intro gammaln_drop_shift) simp_all
  have mono: "gammaln (x + real M) - gammaln (x + real M + d) \<le> gammaln (x + h) - gammaln (x + h + d)"
    using assms by (intro gammaln_increment_antimono) (simp_all add: add_pos_nonneg)
  have e: "gammaln (x + d + h) = gammaln (x + h + d)"
    by (simp add: ac_simps)
  show ?thesis
    unfolding e using shift sum mono by linarith
qed

section \<open>Rounded arithmetic\<close>

subsection \<open>Rounding to a double\<close>

lemma round_half_even_error: "\<bar>of_int (round_half_even y) - y\<bar> \<le> 1 / 2"
proof -
  have "of_int \<lfloor>y\<rfloor> \<le> y" "y < of_int \<lfloor>y\<rfloor> + 1"
    by linarith+
  then show ?thesis
    by (auto simp: round_half_even_def Let_def)
qed

lemma round_half_even_of_int [simp]: "round_half_even (of_int n) = n"
  by (simp add: round_half_even_def)

lemma binary64_round_zero [simp]: "binary64_round 0 = 0"
  by (simp add: binary64_round_def)

lemma two_powr_shift: "2 powr a = 2 ^ n * (2 powr (a - real n) :: real)"
proof -
  have "2 powr a = 2 powr (real n) * (2 powr (a - real n) :: real)"
    using powr_add [of "2 :: real" "real n" "a - real n"] by simp
  then show ?thesis by (simp add: powr_realpow)
qed

lemma binary64_round_at_exponent:
  fixes e :: int
  assumes "2 powr (of_int e) \<le> \<bar>x\<bar>" and "\<bar>x\<bar> < 2 powr (of_int e + 1)"
  shows "binary64_round x = of_int (round_half_even (x / 2 powr (of_int e - 52))) * 2 powr (of_int e - 52)"
proof -
  have "0 < 2 powr (of_int e :: real)" by simp
  with assms(1) have pos: "0 < \<bar>x\<bar>" by linarith
  then have "\<lfloor>log 2 \<bar>x\<bar>\<rfloor> = e"
    using assms by (subst floor_log_eq_powr_iff) simp_all
  with pos show ?thesis
    by (simp add: binary64_round_def Let_def)
qed

lemma binary64_round_scale_down:
  assumes "2 ^ 52 \<le> \<bar>x\<bar> * 2 ^ k" and "\<bar>x\<bar> * 2 ^ k < 2 ^ 53"
  shows "binary64_round x = of_int (round_half_even (x * 2 ^ k)) / 2 ^ k"
proof -
  define e :: int where "e = 52 - int k"
  have u: "2 powr (of_int e - 52) = 1 / (2 :: real) ^ k"
    by (simp add: e_def powr_minus powr_realpow inverse_eq_divide)
  have e0: "2 powr (of_int e) = 2 ^ 52 * (2 powr (of_int e - 52) :: real)"
    using two_powr_shift [of "of_int e" 52] by simp
  have e1: "2 powr (of_int e + 1) = 2 ^ 53 * (2 powr (of_int e - 52) :: real)"
    using two_powr_shift [of "of_int e + 1" 53] by simp
  have "2 powr (of_int e) \<le> \<bar>x\<bar>"
    unfolding e0 u using assms(1) by (simp add: field_simps)
  moreover have "\<bar>x\<bar> < 2 powr (of_int e + 1)"
    unfolding e1 u using assms(2) by (simp add: field_simps)
  ultimately show ?thesis
    by (simp add: binary64_round_at_exponent u)
qed

lemma binary64_round_scale_up:
  assumes "2 ^ 52 * 2 ^ k \<le> \<bar>x\<bar>" and "\<bar>x\<bar> < 2 ^ 53 * 2 ^ k"
  shows "binary64_round x = of_int (round_half_even (x / 2 ^ k)) * 2 ^ k"
proof -
  define e :: int where "e = 52 + int k"
  have u: "2 powr (of_int e - 52) = (2 :: real) ^ k"
    by (simp add: e_def powr_realpow)
  have e0: "2 powr (of_int e) = 2 ^ 52 * (2 powr (of_int e - 52) :: real)"
    using two_powr_shift [of "of_int e" 52] by simp
  have e1: "2 powr (of_int e + 1) = 2 ^ 53 * (2 powr (of_int e - 52) :: real)"
    using two_powr_shift [of "of_int e + 1" 53] by simp
  have "2 powr (of_int e) \<le> \<bar>x\<bar>"
    unfolding e0 u using assms(1) by simp
  moreover have "\<bar>x\<bar> < 2 powr (of_int e + 1)"
    unfolding e1 u using assms(2) by simp
  ultimately show ?thesis
    by (simp add: binary64_round_at_exponent u)
qed

lemma binary64_round_error: "\<bar>binary64_round x - x\<bar> \<le> \<bar>x\<bar> / 2 ^ 53"
proof (cases "x = 0")
  case True
  then show ?thesis by simp
next
  case False
  define e where "e = \<lfloor>log 2 \<bar>x\<bar>\<rfloor>"
  define u :: real where "u = 2 powr (of_int e - 52)"
  have u: "0 < u" by (simp add: u_def)
  have "2 powr (of_int e) \<le> \<bar>x\<bar>"
    using False floor_log_eq_powr_iff [of "\<bar>x\<bar>" 2 e] by (simp add: e_def)
  moreover have "2 powr (of_int e) = 2 ^ 52 * u"
    using two_powr_shift [of "of_int e" 52] by (simp add: u_def)
  ultimately have lower: "2 ^ 52 * u \<le> \<bar>x\<bar>" by simp
  have r: "binary64_round x = of_int (round_half_even (x / u)) * u"
    using False by (simp add: binary64_round_def Let_def e_def u_def)
  have "of_int (round_half_even (x / u)) * u - x = (of_int (round_half_even (x / u)) - x / u) * u"
    using u by (simp add: left_diff_distrib)
  then have "\<bar>binary64_round x - x\<bar> = \<bar>of_int (round_half_even (x / u)) - x / u\<bar> * u"
    using u by (simp only: r abs_mult)
  also have "\<dots> \<le> 1 / 2 * u"
    using u round_half_even_error [of "x / u"] by (intro mult_right_mono) simp_all
  also have "\<dots> = (2 ^ 52 * u) / 2 ^ 53"
    by simp
  also have "\<dots> \<le> \<bar>x\<bar> / 2 ^ 53"
    using lower by (intro divide_right_mono) simp_all
  finally show ?thesis .
qed

subsection \<open>The two arithmetics\<close>

lemma exact_arith_sel:
  "flit exact_arith = (\<lambda>x. x)" "fadd exact_arith = (+)" "fsub exact_arith = (-)"
  "fmul exact_arith = (*)" "fdiv_py exact_arith = pydiv" "fdiv_np exact_arith = (/)"
  "fexp exact_arith = exp" "flog exact_arith = ln" "fgammaln exact_arith = gammaln"
  "fbetaln exact_arith = betaln" "flogsumexp exact_arith = logsumexp"
  "fnot exact_arith = (\<lambda>x. x = 0)"
  by (simp_all add: exact_arith_def)

lemma binary64_sel:
  "flit binary64 = binary64_round"
  "fadd binary64 = (\<lambda>x y. binary64_round (x + y))"
  "fsub binary64 = (\<lambda>x y. binary64_round (x - y))"
  "fmul binary64 = (\<lambda>x y. binary64_round (x * y))"
  "fdiv_py binary64 = (\<lambda>x y. if y = 0 then Inl ZeroDivisionError else Inr (binary64_round (x / y)))"
  "fdiv_np binary64 = (\<lambda>x y. binary64_round (x / y))"
  "fexp binary64 = (\<lambda>x. binary64_round (exp x))"
  "flog binary64 = (\<lambda>x. binary64_round (ln x))"
  "fgammaln binary64 = (\<lambda>x. binary64_round (gammaln x))"
  "fbetaln binary64 = (\<lambda>p q. binary64_round (betaln p q))"
  "flogsumexp binary64 = (\<lambda>a b. binary64_round (logsumexp a b))"
  "fnot binary64 = (\<lambda>x. x = 0)"
  by (simp_all add: binary64_def)

text \<open>In the exact arithmetic the second embedding is the first.\<close>

lemma predictRecall_in_exact: "predictRecall_in exact_arith = predictRecall"
  by (intro ext)
    (simp add: predictRecall_in_def predictRecall_def exact_arith_sel Let_def
      split: prod.split sum.split option.split)

lemma failureMoments_in_exact: "failureMoments_in exact_arith = failureMoments"
  by (intro ext)
    (simp add: failureMoments_in_def failureMoments_def exact_arith_sel Let_def
      split: prod.split sum.split)

lemma gb1Moments_in_exact: "gb1Moments_in exact_arith = gb1Moments"
  by (intro ext) (simp add: gb1Moments_in_def gb1Moments_def exact_arith_sel)

lemma gb1ToBeta_in_exact: "gb1ToBeta_in exact_arith = gb1ToBeta"
  by (intro ext) (simp add: gb1ToBeta_in_def gb1ToBeta_def exact_arith_sel split: prod.split)

lemma updateRecall_in_exact: "updateRecall_in exact_arith = updateRecall"
  by (intro ext)
    (simp add: updateRecall_in_def updateRecall_def failureMoments_in_exact gb1Moments_in_exact
      gb1ToBeta_in_exact exact_arith_sel Let_def split: prod.split sum.split)

subsection \<open>Doubles that the proofs below meet\<close>

lemma binary64_round_exact:
  "binary64_round 1 = 1" "binary64_round 3 = 3" "binary64_round 4 = 4" "binary64_round 6 = 6"
  "binary64_round 7 = 7" "binary64_round 10 = 10" "binary64_round 49 = 49"
  "binary64_round 52 = 52" "binary64_round (1 / 4) = 1 / 4" "binary64_round (- (1 / 4)) = - (1 / 4)"
  "binary64_round 100000000000000000 = 100000000000000000"
proof -
  show "binary64_round 1 = 1"
    by (subst binary64_round_scale_down [of _ 52]) (simp_all add: round_half_even_def Let_def)
  show "binary64_round 3 = 3"
    by (subst binary64_round_scale_down [of _ 51]) (simp_all add: round_half_even_def Let_def)
  show "binary64_round 4 = 4"
    by (subst binary64_round_scale_down [of _ 50]) (simp_all add: round_half_even_def Let_def)
  show "binary64_round 6 = 6"
    by (subst binary64_round_scale_down [of _ 50]) (simp_all add: round_half_even_def Let_def)
  show "binary64_round 7 = 7"
    by (subst binary64_round_scale_down [of _ 50]) (simp_all add: round_half_even_def Let_def)
  show "binary64_round 10 = 10"
    by (subst binary64_round_scale_down [of _ 49]) (simp_all add: round_half_even_def Let_def)
  show "binary64_round 49 = 49"
    by (subst binary64_round_scale_down [of _ 47]) (simp_all add: round_half_even_def Let_def)
  show "binary64_round 52 = 52"
    by (subst binary64_round_scale_down [of _ 47]) (simp_all add: round_half_even_def Let_def)
  show "binary64_round (1 / 4) = 1 / 4"
    by (subst binary64_round_scale_down [of _ 54]) (simp_all add: round_half_even_def Let_def)
  show "binary64_round (- (1 / 4)) = - (1 / 4)"
    by (subst binary64_round_scale_down [of _ 54]) (simp_all add: round_half_even_def Let_def)
  show "binary64_round 100000000000000000 = 100000000000000000"
    by (subst binary64_round_scale_up [of 4]) (simp_all add: round_half_even_def Let_def)
qed

lemma binary64_round_absorbs:
  "binary64_round 100000000000000003 = 100000000000000000"
  "binary64_round 100000000000000006 = 100000000000000000"
proof -
  show "binary64_round 100000000000000003 = 100000000000000000"
    by (subst binary64_round_scale_up [of 4]) (simp_all add: round_half_even_def Let_def)
  show "binary64_round 100000000000000006 = 100000000000000000"
    by (subst binary64_round_scale_up [of 4]) (simp_all add: round_half_even_def Let_def)
qed

lemma binary64_round_inverse_49:
  "binary64_round (1 / 49) = 5882252574524729 / 288230376151711744"
  by (subst binary64_round_scale_down [of _ 58]) (simp_all add: round_half_even_def Let_def)

lemma binary64_round_49_times:
  "binary64_round (288230376151711721 / 288230376151711744) = 9007199254740991 / 9007199254740992"
  by (subst binary64_round_scale_down [of _ 53]) (simp_all add: round_half_even_def Let_def)

lemma binary64_round_small:
  assumes "\<bar>x\<bar> \<le> 1024"
  shows "\<bar>binary64_round x - x\<bar> \<le> 1 / 2 ^ 43"
proof -
  have "\<bar>binary64_round x - x\<bar> \<le> \<bar>x\<bar> / 2 ^ 53"
    by (rule binary64_round_error)
  also have "\<dots> \<le> 1024 / 2 ^ 53"
    using assms by (intro divide_right_mono) simp_all
  finally show ?thesis by simp
qed

section \<open>The recall predictor\<close>

lemma predictRecall_valid:
  assumes "valid_model (alpha, beta, t)"
  shows "predictRecall (alpha, beta, t) tnow exact None =
           Inr (let ret = gammaln (alpha + tnow / t) - gammaln (alpha + tnow / t + beta)
                            + (gammaln (alpha + beta) - gammaln alpha)
                in if exact then exp ret else ret)"
  using assms by (simp add: predictRecall_def valid_model_def pydiv_def Let_def ac_simps)

text \<open>
  When \<open>alpha = beta\<close> the time \<open>t\<close> of the model is its half-life: for
  \<open>(3, 3, 10)\<close> the recall predicted after \<open>10\<close> is one half.
\<close>

lemma predictRecall_at_half_life:
  "predictRecall (3, 3, 10) 10 True None = Inr (1 / 2)"
proof -
  have g: "gammaln 3 = ln 2" "gammaln 4 = ln 6" "gammaln 6 = ln 120" "gammaln 7 = ln 720"
    using gammaln_fact [of 2] gammaln_fact [of 3] gammaln_fact [of 5] gammaln_fact [of 6]
    by (simp_all add: fact_numeral)
  have a: "ln (720 :: real) = ln 6 + ln 120"
    using ln_mult [of "6 :: real" 120] by simp
  have b: "ln (1 / 2 :: real) = - ln 2"
    by (simp add: ln_div)
  have "ln 6 - ln 720 + (ln 120 - ln 2) = ln (1 / 2 :: real)"
    using a b by linarith
  then have "exp (ln 6 - ln 720 + (ln 120 - ln 2)) = (1 / 2 :: real)"
    by simp
  then show ?thesis
    by (simp add: predictRecall_def pydiv_def Let_def g)
qed

text \<open>
  In exact arithmetic the predicted recall does not increase with the elapsed time and is a
  probability.
\<close>

lemma predictRecall_decreasing_exact:
  assumes "valid_model prior" and "0 < tnow1" and "tnow1 < tnow2"
  shows "\<exists>p1 p2. predictRecall prior tnow1 True None = Inr p1 \<and>
                 predictRecall prior tnow2 True None = Inr p2 \<and> p2 \<le> p1"
proof -
  obtain alpha beta t where prior: "prior = (alpha, beta, t)"
    by (cases prior) auto
  have pos: "0 < alpha" "0 < beta" "0 < t"
    using assms(1) by (simp_all add: prior valid_model_def)
  have "tnow1 / t \<le> tnow2 / t"
    using assms(3) pos by (simp add: divide_right_mono)
  moreover have "0 < alpha + tnow1 / t"
    using pos assms(2) by (simp add: add_pos_pos)
  ultimately have "gammaln (alpha + tnow2 / t) - gammaln (alpha + tnow2 / t + beta)
      \<le> gammaln (alpha + tnow1 / t) - gammaln (alpha + tnow1 / t + beta)"
    using pos by (intro gammaln_increment_antimono) simp_all
  then show ?thesis
    using assms(1) by (simp add: prior predictRecall_valid)
qed

lemma predictRecall_probability_exact:
  assumes "valid_model prior" and "0 < tnow"
  shows "\<exists>p. predictRecall prior tnow True None = Inr p \<and> 0 \<le> p \<and> p \<le> 1"
proof -
  obtain alpha beta t where prior: "prior = (alpha, beta, t)"
    by (cases prior) auto
  have pos: "0 < alpha" "0 < beta" "0 < t"
    using assms(1) by (simp_all add: prior valid_model_def)
  have "alpha \<le> alpha + tnow / t"
    using assms(2) pos by simp
  then have "gammaln (alpha + tnow / t) - gammaln (alpha + tnow / t + beta)
      \<le> gammaln alpha - gammaln (alpha + beta)"
    using pos by (intro gammaln_increment_antimono) simp_all
  then show ?thesis
    using assms(1) by (simp add: prior predictRecall_valid)
qed

text \<open>
  In doubles the same formula leaves the unit interval and stops being monotone. For the
  model \<open>(3, 3, 10)\<close> at \<open>tnow = 10 ^ 18\<close> the quotient \<open>dt = 10 ^ 17\<close> absorbs both
  \<open>alpha\<close> and \<open>alpha + beta\<close>: \<open>3 + 10 ^ 17\<close> and \<open>6 + 10 ^ 17\<close> round to the same double,
  the two log-gammas cancel, and what is left is the exponential of
  \<open>gammaln 6 - gammaln 3\<close>, about \<open>60\<close>.
\<close>

lemma gammaln_small_integers:
  "gammaln 3 = ln 2" "gammaln 4 = ln 6" "gammaln 6 = ln 120" "gammaln 7 = ln 6 + ln 120"
proof -
  show "gammaln 3 = ln 2" "gammaln 4 = ln 6" "gammaln 6 = ln 120"
    using gammaln_fact [of 2] gammaln_fact [of 3] gammaln_fact [of 5]
    by (simp_all add: fact_numeral)
  have "gammaln 7 = ln 720"
    using gammaln_fact [of 6] by (simp add: fact_numeral)
  also have "\<dots> = ln 6 + ln 120"
    using ln_mult [of "6 :: real" 120] by simp
  finally show "gammaln 7 = ln 6 + ln 120" .
qed

lemma ln_bounds:
  "1 / 2 \<le> ln (2 :: real)" "ln (2 :: real) \<le> 1" "0 \<le> ln (6 :: real)" "ln (6 :: real) \<le> 5"
  "0 \<le> ln (120 :: real)" "ln (120 :: real) \<le> 119" "2 \<le> ln (120 :: real) - ln 2"
proof -
  have h: "exp (1 / 2 :: real) \<le> 2"
    using exp_bound_half [of "1 / 2 :: real"] by simp
  then have "ln (exp (1 / 2 :: real)) \<le> ln 2"
    by (subst ln_le_cancel_iff) simp_all
  then show "1 / 2 \<le> ln (2 :: real)" by simp
  show "ln (2 :: real) \<le> 1" "ln (6 :: real) \<le> 5" "ln (120 :: real) \<le> 119"
    using ln_le_minus_one [of "2 :: real"] ln_le_minus_one [of "6 :: real"]
      ln_le_minus_one [of "120 :: real"] by simp_all
  show "0 \<le> ln (6 :: real)" "0 \<le> ln (120 :: real)"
    by simp_all
  have "exp (2 :: real) = exp (1 / 2) ^ 4"
    using exp_of_nat_mult [of 4 "1 / 2 :: real"] by simp
  also have "\<dots> \<le> 2 ^ 4"
    using h by (intro power_mono) simp_all
  finally have "exp (2 :: real) \<le> 60" by simp
  then have "ln (exp (2 :: real)) \<le> ln 60"
    by (subst ln_le_cancel_iff) simp_all
  moreover have "ln (60 :: real) = ln 120 - ln 2"
    using ln_div [of "120 :: real" 2] by simp
  ultimately show "2 \<le> ln (120 :: real) - ln 2" by simp
qed

lemma binary64_round_pos_bounds:
  assumes "0 < x"
  shows "x * (3 / 4) \<le> binary64_round x" and "binary64_round x \<le> x * (5 / 4)"
proof -
  have "\<bar>binary64_round x - x\<bar> \<le> \<bar>x\<bar> / 2 ^ 53"
    by (rule binary64_round_error)
  moreover have "\<bar>x\<bar> / 2 ^ 53 \<le> x / 4"
    using assms by simp
  ultimately have "\<bar>binary64_round x - x\<bar> \<le> x / 4"
    by linarith
  then show "x * (3 / 4) \<le> binary64_round x" and "binary64_round x \<le> x * (5 / 4)"
    by linarith+
qed

lemma predictRecall_binary64_late:
  "predictRecall_in binary64 (3, 3, 10) 1000000000000000000 True None =
     Inr (binary64_round (exp (binary64_round (binary64_round
            (binary64_round (ln 120) - binary64_round (ln 2))))))"
  by (simp add: predictRecall_in_def Let_def binary64_sel binary64_round_exact
      binary64_round_absorbs gammaln_small_integers)

lemma predictRecall_binary64_early:
  "predictRecall_in binary64 (3, 3, 10) 10 True None =
     Inr (binary64_round (exp (binary64_round
            (binary64_round (binary64_round (ln 6) - binary64_round (ln 6 + ln 120))
             + binary64_round (binary64_round (ln 120) - binary64_round (ln 2))))))"
  by (simp add: predictRecall_in_def Let_def binary64_sel binary64_round_exact
      gammaln_small_integers)

lemma predictRecall_binary64_values:
  fixes a b c :: real
  defines "a \<equiv> ln 2" and "b \<equiv> ln 6" and "c \<equiv> ln 120"
  defines "late \<equiv> binary64_round (exp (binary64_round (binary64_round
            (binary64_round c - binary64_round a))))"
    and "early \<equiv> binary64_round (exp (binary64_round
            (binary64_round (binary64_round b - binary64_round (b + c))
             + binary64_round (binary64_round c - binary64_round a))))"
  shows "3 / 2 < late" and "early < 3 / 2"
proof -
  have bnd: "1 / 2 \<le> a" "a \<le> 1" "0 \<le> b" "b \<le> 5" "0 \<le> c" "c \<le> 119" "2 \<le> c - a"
    unfolding a_def b_def c_def by (rule ln_bounds)+
  define d :: real where "d = 1 / 2 ^ 43"
  have d: "0 < d" "d \<le> 1 / 1000" by (simp_all add: d_def)
  have sm: "\<bar>x\<bar> \<le> 1024 \<Longrightarrow> \<bar>binary64_round x - x\<bar> \<le> d" for x
    unfolding d_def by (rule binary64_round_small)
  define Ga Gb Gc Gbc where "Ga = binary64_round a" and "Gb = binary64_round b"
    and "Gc = binary64_round c" and "Gbc = binary64_round (b + c)"
  have Ga: "\<bar>Ga - a\<bar> \<le> d" unfolding Ga_def using bnd by (intro sm) simp
  have Gb: "\<bar>Gb - b\<bar> \<le> d" unfolding Gb_def using bnd by (intro sm) simp
  have Gc: "\<bar>Gc - c\<bar> \<le> d" unfolding Gc_def using bnd by (intro sm) simp
  have Gbc: "\<bar>Gbc - (b + c)\<bar> \<le> d" unfolding Gbc_def using bnd by (intro sm) simp
  define I where "I = binary64_round (Gc - Ga)"
  have I: "\<bar>I - (Gc - Ga)\<bar> \<le> d"
    unfolding I_def using bnd d Ga Gc by (intro sm) linarith
  define D where "D = binary64_round (Gb - Gbc)"
  have D: "\<bar>D - (Gb - Gbc)\<bar> \<le> d"
    unfolding D_def using bnd d Gb Gbc by (intro sm) linarith
  define S where "S = binary64_round (D + I)"
  have S: "\<bar>S - (D + I)\<bar> \<le> d"
    unfolding S_def using bnd d Ga Gb Gc Gbc I D by (intro sm) linarith
  define T where "T = binary64_round I"
  have T: "\<bar>T - I\<bar> \<le> d"
    unfolding T_def using bnd d Ga Gc I by (intro sm) linarith
  have "19 / 10 \<le> T"
    using bnd d Ga Gc I T by linarith
  then have "29 / 10 \<le> exp T"
    using exp_ge_add_one_self [of T] by linarith
  moreover have "exp T * (3 / 4) \<le> binary64_round (exp T)"
    by (intro binary64_round_pos_bounds) simp
  ultimately have "3 / 2 < binary64_round (exp T)"
    by linarith
  then show "3 / 2 < late"
    by (simp add: late_def T_def I_def Gc_def Ga_def)
  have "S \<le> 0"
    using bnd d Ga Gb Gc Gbc I D S by linarith
  then have "exp S \<le> 1"
    by simp
  moreover have "binary64_round (exp S) \<le> exp S * (5 / 4)"
    by (intro binary64_round_pos_bounds) simp
  ultimately have "binary64_round (exp S) < 3 / 2"
    by linarith
  then show "early < 3 / 2"
    by (simp add: early_def S_def D_def I_def Gc_def Ga_def Gb_def Gbc_def)
qed

text \<open>
  Claim C8: for a valid model and \<open>tnow > 0\<close>, \<^verbatim>\<open>predictRecall(model, tnow, exact=True)\<close>
  lies between 0 and 1. For the valid model \<open>(3, 3, 10)\<close> and \<open>tnow = 10 ^ 18\<close> the code,
  evaluated in doubles, returns a number above 1.
\<close>

theorem predictRecall_above_one:
  "valid_model (3, 3, 10) \<and> (0 :: real) < 1000000000000000000 \<and>
   (\<exists>p. predictRecall_in binary64 (3, 3, 10) 1000000000000000000 True None = Inr p \<and> 1 < p)"
  using predictRecall_binary64_values(1)
  by (simp add: valid_model_def predictRecall_binary64_late)

text \<open>
  Claim C3: for a valid model and \<open>0 < tnow1 < tnow2\<close> the recall predicted at \<open>tnow1\<close> is
  at least the recall predicted at \<open>tnow2\<close>. For the valid model \<open>(3, 3, 10)\<close> the code,
  evaluated in doubles, returns less at \<open>tnow1 = 10\<close> than at \<open>tnow2 = 10 ^ 18\<close>.
\<close>

theorem predictRecall_not_decreasing:
  "valid_model (3, 3, 10) \<and> (0 :: real) < 10 \<and> (10 :: real) < 1000000000000000000 \<and>
   (\<exists>p1 p2. predictRecall_in binary64 (3, 3, 10) 10 True None = Inr p1 \<and>
            predictRecall_in binary64 (3, 3, 10) 1000000000000000000 True None = Inr p2 \<and>
            p1 < p2)"
  using predictRecall_binary64_values
  by (simp add: valid_model_def predictRecall_binary64_late predictRecall_binary64_early)

text \<open>
  Claim C5. Passing \<^verbatim>\<open>independent=cacheIndependent(model)\<close> gives the same result as
  leaving the argument out. This holds for every model and time: a cached value of zero is
  falsy, so the function recomputes it, and the recomputed value is the same zero.
\<close>

theorem predictRecall_cache_hint:
  "predictRecall prior tnow exact (Some (cacheIndependent prior)) = predictRecall prior tnow exact None"
  by (cases prior) (simp add: predictRecall_def cacheIndependent_def Let_def)



section \<open>The posterior updater on a successful quiz\<close>

text \<open>
  In exact arithmetic a successful quiz changes \<open>alpha\<close> alone: the time
  \<^verbatim>\<open>tnow * (1.0 / (tnow / t))\<close> that \<^verbatim>\<open>gb1ToBeta\<close> computes is \<open>t\<close>.
\<close>

lemma updateRecall_success_exact:
  assumes "valid_model (alpha, beta, t)" and "0 < tnow"
  shows "updateRecall least_squares (alpha, beta, t) True tnow = Inr (alpha + tnow / t, beta, t)"
  using assms by (simp add: updateRecall_def valid_model_def pydiv_def gb1ToBeta_def)

text \<open>
  In any arithmetic a successful quiz returns, when neither division raises, the sum of
  \<open>alpha\<close> and \<open>dt\<close>, the given \<open>beta\<close>, and the product of \<open>tnow\<close> and the inverse of \<open>dt\<close>.
\<close>

lemma updateRecall_in_success_triple:
  assumes "fdiv_py ar tnow t = Inr dt" and "fdiv_py ar (flit ar 1) dt = Inr a"
  shows "updateRecall_in ar least_squares (alpha, beta, t) True tnow =
           Inr (fadd ar alpha dt, beta, fmul ar tnow a)"
  using assms by (simp add: updateRecall_in_def gb1ToBeta_in_def)

text \<open>
  Claim C10, as stated: \<^verbatim>\<open>updateRecall((alpha, beta, t), True, tnow)\<close> returns exactly
  \<open>(alpha + tnow / t, beta, t)\<close>. In doubles it fails for the model \<open>(3, 3, 1)\<close> at
  \<open>tnow = 49\<close>: \<open>1 / 49\<close> is rounded, and \<open>49\<close> times the rounded inverse rounds to the double
  below \<open>1\<close>, so the third component is not \<open>t\<close>.
\<close>

theorem updateRecall_rounded_time_counterexample:
  "updateRecall_in binary64 initial_guess_solver (3, 3, 1) True 49 = Inr (52, 3, 1 - 1 / 2 ^ 53) \<and>
   updateRecall_in binary64 initial_guess_solver (3, 3, 1) True 49 \<noteq> Inr (3 + 49 / 1, 3, 1)"
  by (simp add: updateRecall_in_def gb1ToBeta_in_def binary64_sel binary64_round_exact
      binary64_round_inverse_49 binary64_round_49_times)

text \<open>
  Claim C10, amended. Whenever neither division raises, \<^verbatim>\<open>tnow / t\<close> giving \<open>dt\<close> and then
  \<^verbatim>\<open>1.0 / dt\<close>, the call \<^verbatim>\<open>updateRecall((alpha, beta, t), True, tnow)\<close> returns a triple
  whose first component is the sum of \<open>alpha\<close> and \<open>dt\<close> and whose second component is the
  given \<open>beta\<close>, unchanged. This holds in every arithmetic.
\<close>

theorem updateRecall_success_in:
  assumes "fdiv_py ar tnow t = Inr dt" and "fdiv_py ar (flit ar 1) dt = Inr a"
  shows "\<exists>t'. updateRecall_in ar least_squares (alpha, beta, t) True tnow =
                Inr (fadd ar alpha dt, beta, t')"
  using assms by (simp add: updateRecall_in_def gb1ToBeta_in_def)

theorem updateRecall_success_in_witness:
  "fdiv_py binary64 49 1 = Inr 49 \<and>
   fdiv_py binary64 (flit binary64 1) 49 = Inr (5882252574524729 / 2 ^ 58) \<and>
   (\<exists>t'. updateRecall_in binary64 initial_guess_solver (3, 3, 1) True 49 =
           Inr (fadd binary64 3 49, 3, t')) \<and>
   fadd binary64 3 49 = 52"
proof -
  have d1: "fdiv_py binary64 49 1 = Inr 49"
    by (simp add: binary64_sel binary64_round_exact)
  have d2: "fdiv_py binary64 (flit binary64 1) 49 = Inr (5882252574524729 / 2 ^ 58)"
    by (simp add: binary64_sel binary64_round_exact binary64_round_inverse_49)
  show ?thesis
    using updateRecall_success_in [OF d1 d2, of initial_guess_solver 3 3] d1 d2
    by (simp add: binary64_sel binary64_round_exact)
qed

text \<open>
  Claim C1: the model that \<^verbatim>\<open>updateRecall(model, True, tnow)\<close> returns has \<open>tnow\<close> as its
  third component, as the docstring says of the posterior. For the model \<open>(3, 3, 10)\<close> at
  \<open>tnow = 5\<close> the code returns \<open>(3.5, 3, 10)\<close>: the third component is the prior's \<open>t\<close>.
  Every operation is exact in doubles at this input.
\<close>

theorem updateRecall_time_is_not_tnow:
  "valid_model (3, 3, 10) \<and> (0::real) < 5 \<and>
   updateRecall initial_guess_solver (3, 3, 10) True 5 = Inr (7 / 2, 3, 10) \<and>
   \<not> (\<exists>alpha' beta'. updateRecall initial_guess_solver (3, 3, 10) True 5 = Inr (alpha', beta', 5))"
  by (simp add: updateRecall_def valid_model_def pydiv_def gb1ToBeta_def)

section \<open>Argument checking\<close>





section \<open>The percentile inverter\<close>

subsection \<open>The bracket scan\<close>

lemma scan_up_stop:
  "\<not> (flow > 0 \<and> fhigh > 0) \<Longrightarrow>
   scan_up f bracket_width blow flow bhigh fhigh = Some (blow, flow, bhigh, fhigh)"
  by (subst scan_up.simps) auto

lemma scan_up_step:
  "flow > 0 \<Longrightarrow> fhigh > 0 \<Longrightarrow>
   scan_up f bracket_width blow flow bhigh fhigh =
     scan_up f bracket_width bhigh fhigh (bhigh + bracket_width) (f (bhigh + bracket_width))"
  by (subst scan_up.simps) simp

lemma scan_down_stop:
  "\<not> (flow < 0 \<and> fhigh < 0) \<Longrightarrow>
   scan_down f bracket_width blow flow bhigh fhigh = Some (blow, flow, bhigh, fhigh)"
  by (subst scan_down.simps) auto

lemma scan_down_step:
  "flow < 0 \<Longrightarrow> fhigh < 0 \<Longrightarrow>
   scan_down f bracket_width blow flow bhigh fhigh =
     scan_down f bracket_width (blow - bracket_width) (f (blow - bracket_width)) blow flow"
  by (subst scan_down.simps) simp

subsection \<open>The function whose root is sought\<close>

lemma decay_f_eq:
  "decay_f alpha beta percentile lndelta =
     (gammaln (alpha + exp lndelta) - gammaln (alpha + exp lndelta + beta))
     - (gammaln alpha - gammaln (alpha + beta)) - ln percentile"
  by (simp add: decay_f_def betaln_def Let_def)

lemma decay_f_antimono:
  assumes "0 < alpha" and "0 < beta" and "b1 \<le> b2"
  shows "decay_f alpha beta percentile b2 \<le> decay_f alpha beta percentile b1"
proof -
  have "gammaln (alpha + exp b2) - gammaln (alpha + exp b2 + beta)
          \<le> gammaln (alpha + exp b1) - gammaln (alpha + exp b1 + beta)"
    using assms by (intro gammaln_increment_antimono) (simp_all add: add_pos_pos)
  then show ?thesis by (simp add: decay_f_eq)
qed

lemma exp_ge_real_nat: "real n \<le> exp (3 + 6 * real n)"
proof -
  have "1 + (3 + 6 * real n) \<le> exp (3 + 6 * real n)"
    by (rule exp_ge_add_one_self)
  then show ?thesis by linarith
qed

lemma decay_f_eventually_nonpos:
  assumes "0 < alpha" and "0 < beta" and "0 < percentile"
  shows "\<exists>m::nat. decay_f alpha beta percentile (3 + 6 * real m) \<le> 0"
proof -
  define K where "K = nat \<lceil>1 / beta\<rceil>"
  have "1 / beta \<le> real K"
    unfolding K_def by linarith
  then have K: "1 \<le> real K * beta"
    using assms(2) by (simp add: field_simps)
  then have Kpos: "0 < real K"
    using assms(2) by (cases "K = 0") simp_all
  define N where "N = nat \<lceil>exp (ln alpha - real K * ln percentile)\<rceil>"
  have "exp (ln alpha - real K * ln percentile) \<le> real N"
    unfolding N_def by linarith
  also have "\<dots> \<le> alpha + real N"
    using assms(1) by simp
  finally have "ln (exp (ln alpha - real K * ln percentile)) \<le> ln (alpha + real N)"
    by (subst ln_le_cancel_iff) (use assms(1) in \<open>simp_all add: add_pos_nonneg\<close>)
  then have N: "- (ln (alpha + real N) - ln alpha) \<le> real K * ln percentile"
    by simp
  define b where "b = 3 + 6 * real N"
  have "alpha + real N \<le> alpha + exp b"
    unfolding b_def using exp_ge_real_nat [of N] by simp
  then have "gammaln (alpha + exp b) - gammaln (alpha + exp b + beta)
      \<le> gammaln (alpha + real N) - gammaln (alpha + real N + beta)"
    using assms by (intro gammaln_increment_antimono) (simp_all add: add_pos_nonneg)
  then have "real K * ((gammaln (alpha + exp b) - gammaln (alpha + exp b + beta))
                 - (gammaln alpha - gammaln (alpha + beta)))
      \<le> real K * ((gammaln (alpha + real N) - gammaln (alpha + real N + beta))
                 - (gammaln alpha - gammaln (alpha + beta)))"
    using Kpos by (intro mult_left_mono) simp_all
  also have "\<dots> \<le> - (ln (alpha + real N) - ln alpha)"
    using assms K by (intro gammaln_drop_upper) simp_all
  also have "\<dots> \<le> real K * ln percentile"
    by (rule N)
  finally have "real K * decay_f alpha beta percentile b \<le> 0"
    by (simp add: decay_f_eq algebra_simps)
  then have "decay_f alpha beta percentile b \<le> 0"
    using Kpos by (simp add: mult_le_0_iff)
  then show ?thesis unfolding b_def by blast
qed

lemma decay_f_eventually_nonneg:
  assumes "0 < alpha" and "0 < beta" and "0 < percentile" and "percentile < 1"
  shows "\<exists>m::nat. 0 \<le> decay_f alpha beta percentile (- 3 - 6 * real m)"
proof -
  define M where "M = nat \<lceil>beta\<rceil>"
  have M: "beta \<le> real M"
    unfolding M_def by linarith
  then have Mpos: "0 < real M"
    using assms(2) by linarith
  define eps where "eps = - ln percentile"
  have eps: "0 < eps"
    unfolding eps_def using assms(3,4) by simp
  define m where "m = nat \<lceil>real M / (eps * alpha)\<rceil>"
  define E where "E = exp (3 + 6 * real m)"
  have Epos: "0 < E"
    by (simp add: E_def)
  have "real M / (eps * alpha) \<le> real m"
    unfolding m_def by linarith
  also have "\<dots> \<le> E"
    unfolding E_def by (rule exp_ge_real_nat)
  finally have "real M \<le> E * (eps * alpha)"
    using eps assms(1) by (simp add: pos_divide_le_eq)
  then have "real M / E \<le> eps * alpha"
    using Epos by (simp add: pos_divide_le_eq mult.commute)
  then have "real M / E / alpha \<le> eps"
    using assms(1) by (subst pos_divide_le_eq) simp_all
  moreover have "exp (- 3 - 6 * real m) = 1 / E"
    using exp_minus [of "3 + 6 * real m"] by (simp add: E_def inverse_eq_divide)
  ultimately have small: "real M * (exp (- 3 - 6 * real m) / alpha) \<le> eps"
    by simp
  define d where "d = exp (- 3 - 6 * real m)"
  have "(gammaln alpha - gammaln (alpha + beta)) - (gammaln (alpha + d) - gammaln (alpha + d + beta))
      \<le> real M * (d / alpha)"
    using assms M by (intro gammaln_drop_lower) (simp_all add: d_def)
  with small have "0 \<le> decay_f alpha beta percentile (- 3 - 6 * real m)"
    by (simp add: decay_f_eq d_def eps_def)
  then show ?thesis by blast
qed

subsection \<open>Both scans stop\<close>

lemma scan_up_total:
  assumes "f (lo0 + w + w * real m) \<le> 0"
  shows "\<exists>k::nat. scan_up f w lo0 (f lo0) (lo0 + w) (f (lo0 + w)) =
            Some (lo0 + w * real k, f (lo0 + w * real k),
                  lo0 + w * real k + w, f (lo0 + w * real k + w)) \<and>
          \<not> (f (lo0 + w * real k) > 0 \<and> f (lo0 + w * real k + w) > 0)"
  using assms
proof (induction m arbitrary: lo0)
  case 0
  then have "\<not> (f lo0 > 0 \<and> f (lo0 + w) > 0)" by simp
  then have "scan_up f w lo0 (f lo0) (lo0 + w) (f (lo0 + w)) =
      Some (lo0 + w * real 0, f (lo0 + w * real 0), lo0 + w * real 0 + w, f (lo0 + w * real 0 + w)) \<and>
      \<not> (f (lo0 + w * real 0) > 0 \<and> f (lo0 + w * real 0 + w) > 0)"
    by (simp add: scan_up_stop)
  then show ?case by blast
next
  case (Suc m)
  show ?case
  proof (cases "f lo0 > 0 \<and> f (lo0 + w) > 0")
    case False
    then have "scan_up f w lo0 (f lo0) (lo0 + w) (f (lo0 + w)) =
        Some (lo0 + w * real 0, f (lo0 + w * real 0), lo0 + w * real 0 + w, f (lo0 + w * real 0 + w)) \<and>
        \<not> (f (lo0 + w * real 0) > 0 \<and> f (lo0 + w * real 0 + w) > 0)"
      by (simp add: scan_up_stop)
    then show ?thesis by blast
  next
    case True
    have "f ((lo0 + w) + w + w * real m) \<le> 0"
      using Suc.prems by (simp add: algebra_simps)
    from Suc.IH [OF this] obtain k :: nat where k:
      "scan_up f w (lo0 + w) (f (lo0 + w)) (lo0 + w + w) (f (lo0 + w + w)) =
         Some (lo0 + w + w * real k, f (lo0 + w + w * real k),
               lo0 + w + w * real k + w, f (lo0 + w + w * real k + w))"
      "\<not> (f (lo0 + w + w * real k) > 0 \<and> f (lo0 + w + w * real k + w) > 0)"
      by blast
    have e: "lo0 + w + w * real k = lo0 + w * real (Suc k)"
      by (simp add: algebra_simps)
    have step: "scan_up f w lo0 (f lo0) (lo0 + w) (f (lo0 + w)) =
        scan_up f w (lo0 + w) (f (lo0 + w)) (lo0 + w + w) (f (lo0 + w + w))"
      using True by (simp add: scan_up_step)
    have r: "scan_up f w lo0 (f lo0) (lo0 + w) (f (lo0 + w)) =
        Some (lo0 + w * real (Suc k), f (lo0 + w * real (Suc k)),
              lo0 + w * real (Suc k) + w, f (lo0 + w * real (Suc k) + w))"
      by (simp only: step k(1) e)
    have n: "\<not> (f (lo0 + w * real (Suc k)) > 0 \<and> f (lo0 + w * real (Suc k) + w) > 0)"
      using k(2) unfolding e .
    show ?thesis
      by (rule exI [of _ "Suc k"], rule conjI [OF r n])
  qed
qed

lemma scan_down_total:
  assumes "0 \<le> f (lo0 - w * real m)" and "f (lo0 + w) \<le> 0"
  shows "\<exists>k::nat. scan_down f w lo0 (f lo0) (lo0 + w) (f (lo0 + w)) =
            Some (lo0 - w * real k, f (lo0 - w * real k),
                  lo0 - w * real k + w, f (lo0 - w * real k + w)) \<and>
          \<not> (f (lo0 - w * real k) < 0 \<and> f (lo0 - w * real k + w) < 0) \<and>
          f (lo0 - w * real k + w) \<le> 0"
  using assms
proof (induction m arbitrary: lo0)
  case 0
  then have "\<not> (f lo0 < 0 \<and> f (lo0 + w) < 0)" by simp
  with 0 have "scan_down f w lo0 (f lo0) (lo0 + w) (f (lo0 + w)) =
      Some (lo0 - w * real 0, f (lo0 - w * real 0), lo0 - w * real 0 + w, f (lo0 - w * real 0 + w)) \<and>
      \<not> (f (lo0 - w * real 0) < 0 \<and> f (lo0 - w * real 0 + w) < 0) \<and> f (lo0 - w * real 0 + w) \<le> 0"
    by (simp add: scan_down_stop)
  then show ?case by blast
next
  case (Suc m)
  show ?case
  proof (cases "f lo0 < 0 \<and> f (lo0 + w) < 0")
    case False
    with Suc.prems have "scan_down f w lo0 (f lo0) (lo0 + w) (f (lo0 + w)) =
        Some (lo0 - w * real 0, f (lo0 - w * real 0), lo0 - w * real 0 + w, f (lo0 - w * real 0 + w)) \<and>
        \<not> (f (lo0 - w * real 0) < 0 \<and> f (lo0 - w * real 0 + w) < 0) \<and> f (lo0 - w * real 0 + w) \<le> 0"
      by (simp add: scan_down_stop)
    then show ?thesis by blast
  next
    case True
    have a: "0 \<le> f ((lo0 - w) - w * real m)"
      using Suc.prems(1) by (simp add: algebra_simps)
    have b: "f ((lo0 - w) + w) \<le> 0"
      using True by simp
    from Suc.IH [OF a b] obtain k :: nat where k:
      "scan_down f w (lo0 - w) (f (lo0 - w)) (lo0 - w + w) (f (lo0 - w + w)) =
         Some (lo0 - w - w * real k, f (lo0 - w - w * real k),
               lo0 - w - w * real k + w, f (lo0 - w - w * real k + w))"
      "\<not> (f (lo0 - w - w * real k) < 0 \<and> f (lo0 - w - w * real k + w) < 0)"
      "f (lo0 - w - w * real k + w) \<le> 0"
      by blast
    have e: "lo0 - w - w * real k = lo0 - w * real (Suc k)"
      by (simp add: algebra_simps)
    have step: "scan_down f w lo0 (f lo0) (lo0 + w) (f (lo0 + w)) =
        scan_down f w (lo0 - w) (f (lo0 - w)) (lo0 - w + w) (f (lo0 - w + w))"
      using True by (simp add: scan_down_step)
    have r: "scan_down f w lo0 (f lo0) (lo0 + w) (f (lo0 + w)) =
        Some (lo0 - w * real (Suc k), f (lo0 - w * real (Suc k)),
              lo0 - w * real (Suc k) + w, f (lo0 - w * real (Suc k) + w))"
      by (simp only: step k(1) e)
    have n: "\<not> (f (lo0 - w * real (Suc k)) < 0 \<and> f (lo0 - w * real (Suc k) + w) < 0)"
      using k(2) unfolding e .
    have h: "f (lo0 - w * real (Suc k) + w) \<le> 0"
      using k(3) unfolding e .
    show ?thesis
      by (rule exI [of _ "Suc k"], rule conjI [OF r conjI [OF n h]])
  qed
qed

text \<open>
  For a valid model and a percentile in \<open>(0, 1)\<close> the inverter always returns. The scans
  end on a bracket \<open>[lo, lo + 6]\<close> of the grid \<open>-3 + 6 k\<close> with \<open>f lo \<ge> 0 \<ge> f (lo + 6)\<close>. The
  assertion holds, and the root solver is called on that bracket, exactly when neither value
  is zero.
\<close>

lemma modelToPercentileDecay_total:
  assumes "valid_model (alpha, beta, t0)" and "0 < percentile" and "percentile < 1"
  shows "\<exists>lo. (\<exists>k::int. lo = - 3 + 6 * real_of_int k) \<and>
           0 \<le> decay_f alpha beta percentile lo \<and>
           decay_f alpha beta percentile (lo + 6) \<le> 0 \<and>
           modelToPercentileDecay root_scalar (alpha, beta, t0) percentile =
             Some (if 0 < decay_f alpha beta percentile lo \<and> decay_f alpha beta percentile (lo + 6) < 0
                   then (case root_scalar (decay_f alpha beta percentile) (lo, lo + 6) of
                           Inl e \<Rightarrow> Inl e
                         | Inr sol_root \<Rightarrow> Inr (exp sol_root * t0))
                   else Inl AssertionError)"
proof -
  define f where "f = decay_f alpha beta percentile"
  have pos: "0 < alpha" "0 < beta"
    using assms(1) by (simp_all add: valid_model_def)
  have anti: "f (b + 6) \<le> f b" for b
    unfolding f_def using pos by (intro decay_f_antimono) simp_all
  obtain m1 :: nat where "f (3 + 6 * real m1) \<le> 0"
    unfolding f_def using decay_f_eventually_nonpos [OF pos assms(2)] by blast
  then have "f (- 3 + 6 + 6 * real m1) \<le> 0"
    by simp
  from scan_up_total [of f "- 3" 6 m1, OF this] obtain k1 :: nat where up:
    "scan_up f 6 (- 3) (f (- 3)) (- 3 + 6) (f (- 3 + 6)) =
       Some (- 3 + 6 * real k1, f (- 3 + 6 * real k1),
             - 3 + 6 * real k1 + 6, f (- 3 + 6 * real k1 + 6))"
    "\<not> (f (- 3 + 6 * real k1) > 0 \<and> f (- 3 + 6 * real k1 + 6) > 0)"
    by blast
  define lo1 where "lo1 = - 3 + 6 * real k1"
  have hi1: "f (lo1 + 6) \<le> 0"
    using up(2) anti [of lo1] unfolding lo1_def by linarith
  obtain m2 :: nat where "0 \<le> f (- 3 - 6 * real m2)"
    unfolding f_def using decay_f_eventually_nonneg [OF pos assms(2,3)] by blast
  then have "0 \<le> f (lo1 - 6 * real (m2 + k1))"
    by (simp add: lo1_def algebra_simps)
  from scan_down_total [of f lo1 6 "m2 + k1", OF this hi1] obtain k2 :: nat where down:
    "scan_down f 6 lo1 (f lo1) (lo1 + 6) (f (lo1 + 6)) =
       Some (lo1 - 6 * real k2, f (lo1 - 6 * real k2),
             lo1 - 6 * real k2 + 6, f (lo1 - 6 * real k2 + 6))"
    "\<not> (f (lo1 - 6 * real k2) < 0 \<and> f (lo1 - 6 * real k2 + 6) < 0)"
    "f (lo1 - 6 * real k2 + 6) \<le> 0"
    by blast
  define lo where "lo = lo1 - 6 * real k2"
  have grid: "lo = - 3 + 6 * real_of_int (int k1 - int k2)"
    by (simp add: lo_def lo1_def)
  have flo: "0 \<le> f lo"
    using down(2) anti [of lo] unfolding lo_def by linarith
  have fhi: "f (lo + 6) \<le> 0"
    using down(3) unfolding lo_def .
  have up': "scan_up f 6 (- 3) (f (- 3)) 3 (f 3) = Some (lo1, f lo1, lo1 + 6, f (lo1 + 6))"
    using up(1) unfolding lo1_def by simp
  have down': "scan_down f 6 lo1 (f lo1) (lo1 + 6) (f (lo1 + 6)) = Some (lo, f lo, lo + 6, f (lo + 6))"
    using down(1) unfolding lo_def .
  have "modelToPercentileDecay root_scalar (alpha, beta, t0) percentile =
      Some (if 0 < f lo \<and> f (lo + 6) < 0
            then (case root_scalar f (lo, lo + 6) of
                    Inl e \<Rightarrow> Inl e
                  | Inr sol_root \<Rightarrow> Inr (exp sol_root * t0))
            else Inl AssertionError)"
    by (simp add: modelToPercentileDecay_def Let_def f_def [symmetric] up' down' split: sum.split)
  with grid flo fhi show ?thesis
    unfolding f_def by blast
qed

subsection \<open>The round trip through the predictor\<close>

text \<open>
  A root of \<open>f\<close> is a time at which the predicted recall is the percentile, and so every
  time the inverter returns is one, provided the solver returns roots.
\<close>

lemma roundtrip_of_root:
  assumes "valid_model (alpha, beta, t0)" and "0 < percentile"
    and "decay_f alpha beta percentile r = 0"
  shows "predictRecall (alpha, beta, t0) (exp r * t0) True None = Inr percentile"
proof -
  have t0: "0 < t0"
    using assms(1) by (simp add: valid_model_def)
  have "(gammaln (alpha + exp r) - gammaln (alpha + exp r + beta))
          + (gammaln (alpha + beta) - gammaln alpha) = ln percentile"
    using assms(3) by (simp add: decay_f_eq)
  then have "exp ((gammaln (alpha + exp r) - gammaln (alpha + exp r + beta))
          + (gammaln (alpha + beta) - gammaln alpha)) = percentile"
    using assms(2) by simp
  then show ?thesis
    using t0 by (simp add: predictRecall_valid [OF assms(1)])
qed

lemma percentile_roundtrip:
  assumes "valid_model (alpha, beta, t0)" and "0 < percentile" and "percentile < 1"
    and "modelToPercentileDecay root_scalar (alpha, beta, t0) percentile = Some (Inr t1)"
    and "\<And>lo hi r. root_scalar (decay_f alpha beta percentile) (lo, hi) = Inr r
           \<Longrightarrow> decay_f alpha beta percentile r = 0"
  shows "predictRecall (alpha, beta, t0) t1 True None = Inr percentile"
proof -
  from modelToPercentileDecay_total [OF assms(1-3), of root_scalar] obtain lo where
    "modelToPercentileDecay root_scalar (alpha, beta, t0) percentile =
       Some (if 0 < decay_f alpha beta percentile lo \<and> decay_f alpha beta percentile (lo + 6) < 0
             then (case root_scalar (decay_f alpha beta percentile) (lo, lo + 6) of
                     Inl e \<Rightarrow> Inl e
                   | Inr sol_root \<Rightarrow> Inr (exp sol_root * t0))
             else Inl AssertionError)"
    by blast
  with assms(4) obtain r where
    "root_scalar (decay_f alpha beta percentile) (lo, lo + 6) = Inr r" and "t1 = exp r * t0"
    by (auto split: if_splits sum.splits)
  with assms(5) roundtrip_of_root [OF assms(1,2)] show ?thesis
    by blast
qed

subsection \<open>The model \<open>(1, 1, 1)\<close>\<close>

text \<open>
  For \<open>alpha = beta = 1\<close> the expected recall after \<open>delta\<close> half-lives is
  \<open>1 / (1 + delta)\<close>, so \<open>f\<close> is elementary.
\<close>

lemma decay_f_unit:
  "decay_f 1 1 percentile lndelta = - ln (1 + exp lndelta) - ln percentile"
proof -
  have "0 < 1 + exp lndelta" by (simp add: add_pos_pos)
  then have "gammaln (1 + exp lndelta + 1) = gammaln (1 + exp lndelta) + ln (1 + exp lndelta)"
    by (rule gammaln_plus_one)
  then show ?thesis
    by (simp add: decay_f_eq gammaln_one gammaln_two)
qed

lemma decay_f_half: "decay_f 1 1 (1 / 2) lndelta = ln 2 - ln (1 + exp lndelta)"
  by (simp add: decay_f_unit ln_div)

lemma decay_f_zero_at_bracket_end: "decay_f 1 1 (1 / (1 + exp 3)) 3 = 0"
proof -
  have "0 < 1 + exp (3::real)" by (simp add: add_pos_pos)
  then have "ln (1 / (1 + exp (3::real))) = - ln (1 + exp 3)"
    by (simp add: ln_div)
  then show ?thesis by (simp add: decay_f_unit)
qed

lemma modelToPercentileDecay_zero_end:
  "modelToPercentileDecay root_scalar (1, 1, 1) (1 / (1 + exp 3)) = Some (Inl AssertionError)"
  by (simp add: modelToPercentileDecay_def Let_def decay_f_zero_at_bracket_end
      scan_up_stop scan_down_stop)

lemma percentile_in_unit_interval: "0 < 1 / (1 + exp 3 :: real) \<and> 1 / (1 + exp 3 :: real) < 1"
  by (simp add: add_pos_pos)

text \<open>
  Claim C6: for a valid model and a percentile in \<open>(0, 1)\<close> the bracket scan ends with
  \<open>f low > 0\<close> and \<open>f high < 0\<close>, so that the assertion before the root solve never fails.
  The code fails its assertion for the valid model \<open>(1, 1, 1)\<close> and the percentile
  \<open>1 / (1 + exp 3)\<close>: \<open>f\<close> is zero at the upper end \<open>3\<close> of the first window, neither loop
  runs, and \<^verbatim>\<open>assert flow > 0 and fhigh < 0\<close> raises.
\<close>

theorem bracket_assertion_fails:
  "valid_model (1, 1, 1) \<and> 0 < 1 / (1 + exp 3 :: real) \<and> 1 / (1 + exp 3 :: real) < 1 \<and>
   decay_f 1 1 (1 / (1 + exp 3)) 3 = 0 \<and>
   modelToPercentileDecay root_scalar (1, 1, 1) (1 / (1 + exp 3)) = Some (Inl AssertionError)"
  using percentile_in_unit_interval
  by (simp add: valid_model_def decay_f_zero_at_bracket_end modelToPercentileDecay_zero_end)

text \<open>
  Claim C4: for a valid model and a percentile \<open>p\<close> in \<open>(0, 1)\<close>,
  \<^verbatim>\<open>predictRecall(model, modelToPercentileDecay(model, p), exact=True)\<close> is \<open>p\<close>. For the
  valid model \<open>(1, 1, 1)\<close> and \<open>p = 1 / (1 + exp 3)\<close> the inverter raises instead of returning
  a time, whatever the root solver is, so there is no round trip.
\<close>

theorem percentile_roundtrip_fails:
  "valid_model (1, 1, 1) \<and> 0 < 1 / (1 + exp 3 :: real) \<and> 1 / (1 + exp 3 :: real) < 1 \<and>
   \<not> (\<exists>t1. modelToPercentileDecay root_scalar (1, 1, 1) (1 / (1 + exp 3)) = Some (Inr t1))"
  using percentile_in_unit_interval
  by (simp add: valid_model_def modelToPercentileDecay_zero_end)

text \<open>
  Where \<open>f\<close> has no zero on the grid the round trip is exact: the half-life of the model
  \<open>(1, 1, 1)\<close> is \<open>1\<close>, and the predicted recall after that time is one half.
\<close>

lemma modelToPercentileDecay_half_life:
  "modelToPercentileDecay midpoint_solver (1, 1, 1) (1 / 2) = Some (Inr 1)"
proof -
  have "ln (1 + exp (- 3 :: real)) < ln 2"
    by (subst ln_less_cancel_iff) (simp_all add: add_pos_pos)
  then have lo: "decay_f 1 1 (1 / 2) (- 3) > 0"
    by (simp add: decay_f_half)
  have "ln 2 < ln (1 + exp (3 :: real))"
    by (subst ln_less_cancel_iff) (simp_all add: add_pos_pos)
  then have hi: "decay_f 1 1 (1 / 2) 3 < 0"
    by (simp add: decay_f_half)
  show ?thesis
    using lo hi
    by (simp add: modelToPercentileDecay_def Let_def scan_up_stop scan_down_stop midpoint_solver_def)
qed

lemma half_life_roundtrip:
  "modelToPercentileDecay midpoint_solver (1, 1, 1) (1 / 2) = Some (Inr 1) \<and>
   predictRecall (1, 1, 1) 1 True None = Inr (1 / 2)"
proof -
  have "decay_f 1 1 (1 / 2) 0 = 0"
    by (simp add: decay_f_half)
  then have "predictRecall (1, 1, 1) (exp 0 * 1) True None = Inr (1 / 2)"
    by (intro roundtrip_of_root) (simp_all add: valid_model_def)
  then show ?thesis
    by (simp add: modelToPercentileDecay_half_life)
qed

section \<open>The model constructor\<close>

text \<open>
  Claim C9, as the specification states it: a \<open>beta\<close> that is not \<^verbatim>\<open>None\<close> is returned
  as the second component. It fails for \<open>beta = 0\<close>, which \<^verbatim>\<open>beta or alpha\<close> replaces by
  \<open>alpha\<close>.
\<close>

theorem defaultModel_zero_beta_counterexample:
  "defaultModel 10 3 (Some 0) = (3, 3, 10) \<and> defaultModel 10 3 (Some 0) \<noteq> (3, 0, 10)"
  by (simp add: defaultModel_def)

text \<open>
  Claim C9, amended. \<^verbatim>\<open>defaultModel(t, alpha, beta)\<close> returns \<open>(alpha, alpha, t)\<close> when
  \<open>beta\<close> is \<^verbatim>\<open>None\<close> or zero, and \<open>(alpha, beta, t)\<close> when \<open>beta\<close> is a nonzero number; in
  particular \<^verbatim>\<open>defaultModel(t=10, alpha=3.0)\<close> is \<open>(3, 3, 10)\<close>.
\<close>

theorem defaultModel_returns:
  "defaultModel t alpha None = (alpha, alpha, t) \<and>
   defaultModel t alpha (Some 0) = (alpha, alpha, t) \<and>
   (b \<noteq> 0 \<longrightarrow> defaultModel t alpha (Some b) = (alpha, b, t)) \<and>
   defaultModel 10 3 None = (3, 3, 10)"
  by (simp add: defaultModel_def)

theorem defaultModel_returns_witness:
  "(3::real) \<noteq> 0 \<and> defaultModel 10 2 (Some 3) = (2, 3, 10)"
  using defaultModel_returns [of 10 2 3] by simp

end
